theory Spec2Isabelle
  imports Main "HOL-Library.AList" "HOL-Library.Multiset"
begin

section \<open>Data model of \<open>module_finder.py\<close>\<close>

text \<open>
  The class \<open>ModuleDownload\<close>: \<open>source_dir\<close> is set by the constructor, \<open>module_link\<close>
  and \<open>version\<close> are class attributes initialised to Python's \<open>None\<close>.
\<close>

record ModuleDownload =
  source_dir :: string
  module_link :: "string option"
  version :: "string option"

definition new_ModuleDownload :: "string \<Rightarrow> ModuleDownload" where
  "new_ModuleDownload d = \<lparr>source_dir = d, module_link = None, version = None\<rparr>"

text \<open>How an f-string renders an attribute that is a string or \<open>None\<close>.\<close>

fun py_str :: "string option \<Rightarrow> string" where
  "py_str None = ''None''"
| "py_str (Some s) = s"

text \<open>The property \<open>address\<close>: \<open>f'{self.module_link}:{self.version}'\<close>.\<close>

definition address :: "ModuleDownload \<Rightarrow> string" where
  "address m = py_str (module_link m) @ '':'' @ py_str (version m)"

text \<open>Exceptions of the Python run time that the modelled code can meet.\<close>

datatype py_error =
    IndexError
  | AttributeError
  | FileNotFoundError string
  | UnicodeDecodeError string
  | OtherError string

section \<open>Deduplication and the batch planner of \<open>load_tf_modules\<close>\<close>

text \<open>
  A Python \<open>dict\<close> keeps insertion order; storing under a present key replaces the value
  in place, storing under a new key appends. That is \<^const>\<open>AList.update\<close> on an
  association list.
\<close>

type_synonym ('k, 'v) pydict = "('k \<times> 'v) list"

definition dict_contains :: "'k \<Rightarrow> ('k, 'v) pydict \<Rightarrow> bool" where
  "dict_contains k d = (k \<in> set (map fst d))"

definition dict_values :: "('k, 'v) pydict \<Rightarrow> 'v list" where
  "dict_values d = map snd d"

text \<open>\<open>distinct_modules = {m.address: m for m in modules_to_load}.values()\<close>\<close>

definition distinct_modules :: "ModuleDownload list \<Rightarrow> ModuleDownload list" where
  "distinct_modules ms = dict_values (foldl (\<lambda>d m. AList.update (address m) m d) [] ms)"

type_synonym batch = "(string option, ModuleDownload) pydict"

text \<open>
  The inner loop \<open>for i, batch in enumerate(batches)\<close>: \<open>found\<close> follows the index while
  the batches contain the link, and the loop breaks at the first batch that does not.
\<close>

fun scan_batches :: "string option \<Rightarrow> batch list \<Rightarrow> int \<Rightarrow> int \<Rightarrow> int" where
  "scan_batches k [] i found = found"
| "scan_batches k (b # bs) i found =
     (if dict_contains k b then scan_batches k bs (i + 1) i else found)"

text \<open>The position that \<open>xs[i]\<close> denotes: from the end when \<open>i\<close> is negative, \<open>IndexError\<close> outside the list.\<close>

definition py_index :: "'a list \<Rightarrow> int \<Rightarrow> py_error + nat" where
  "py_index xs i =
     (if 0 \<le> i \<and> i < int (length xs) then Inr (nat i)
      else if i < 0 \<and> - int (length xs) \<le> i then Inr (nat (int (length xs) + i))
      else Inl IndexError)"

text \<open>The body of \<open>for m in distinct_modules\<close>.\<close>

definition place :: "ModuleDownload \<Rightarrow> batch list \<Rightarrow> py_error + batch list" where
  "place m batches =
     (let found = scan_batches (module_link m) batches 0 (- 1)
      in if found = int (length batches) - 1
         then Inr (batches @ [[(module_link m, m)]])
         else (case py_index batches (found + 1) of
                 Inl e \<Rightarrow> Inl e
               | Inr j \<Rightarrow> Inr (batches[j := AList.update (module_link m) m (batches ! j)])))"

fun plan_from :: "batch list \<Rightarrow> ModuleDownload list \<Rightarrow> py_error + batch list" where
  "plan_from batches [] = Inr batches"
| "plan_from batches (m # ms) =
     (case place m batches of Inl e \<Rightarrow> Inl e | Inr batches' \<Rightarrow> plan_from batches' ms)"

definition plan_batches :: "ModuleDownload list \<Rightarrow> py_error + batch list" where
  "plan_batches ms = plan_from [] ms"

text \<open>All references held by a list of batches, batch by batch.\<close>

definition all_values :: "batch list \<Rightarrow> ModuleDownload list" where
  "all_values batches = concat (map dict_values batches)"



definition keyed_by_address :: "(string, ModuleDownload) pydict \<Rightarrow> bool" where
  "keyed_by_address d = ((\<forall>kv \<in> set d. fst kv = address (snd kv)) \<and> distinct (map fst d))"

text \<open>Sample references (the end-to-end scenario of the specification).\<close>

definition ref_a_latest :: ModuleDownload where
  "ref_a_latest = \<lparr>source_dir = ''A'', module_link = Some ''git::https://example.com/mod-a'',
     version = None\<rparr>"

definition ref_a_v1 :: ModuleDownload where
  "ref_a_v1 = \<lparr>source_dir = ''B'', module_link = Some ''git::https://example.com/mod-a'',
     version = Some ''1.0.0''\<rparr>"

definition ref_a_latest_B :: ModuleDownload where
  "ref_a_latest_B = \<lparr>source_dir = ''B'', module_link = Some ''git::https://example.com/mod-a'',
     version = None\<rparr>"

definition ref_local :: ModuleDownload where
  "ref_local = \<lparr>source_dir = ''B'', module_link = Some ''./local'', version = None\<rparr>"

section \<open>Strings, paths and regular expressions used by the scanner\<close>

text \<open>
  Text is modelled as \<^typ>\<open>string\<close>, one \<^typ>\<open>char\<close> per code point, so the model covers
  files whose characters lie in the Latin-1 range; the character classes below are those
  of Python's \<open>re\<close> on \<open>str\<close> patterns, restricted to that range.
\<close>

definition startswith :: "string \<Rightarrow> string \<Rightarrow> bool" where
  "startswith s p = (take (length p) s = p)"

definition endswith :: "string \<Rightarrow> string \<Rightarrow> bool" where
  "endswith s p = (length p \<le> length s \<and> drop (length s - length p) s = p)"

text \<open>\<open>os.path.join\<close> and \<open>os.path.dirname\<close> of \<open>posixpath\<close>.\<close>

definition path_join2 :: "string \<Rightarrow> string \<Rightarrow> string" where
  "path_join2 a b =
     (if startswith b ''/'' then b
      else if a = [] \<or> endswith a ''/'' then a @ b
      else a @ ''/'' @ b)"

definition path_join :: "string \<Rightarrow> string list \<Rightarrow> string" where
  "path_join a ps = foldl path_join2 a ps"

definition dirname :: "string \<Rightarrow> string" where
  "dirname p =
     (let head = rev (dropWhile (\<lambda>c. c \<noteq> CHR ''/'') (rev p))
      in if head \<noteq> [] \<and> \<not> list_all (\<lambda>c. c = CHR ''/'') head
         then rev (dropWhile (\<lambda>c. c = CHR ''/'') (rev head))
         else head)"

text \<open>
  The fragment of regular expressions that the two patterns of \<open>find_modules\<close> use:
  single-character classes, greedy \<open>*\<close> over such a class, the word boundary \<open>\b\<close>
  and named groups. A pattern is the list of its items.
\<close>

datatype cclass = Lit char | Dot | Space | NonDigit

datatype rx_item = One cclass | Star cclass | WordBoundary | GroupOpen string | GroupClose string

definition is_digit :: "char \<Rightarrow> bool" where
  "is_digit c = (c \<in> set ''0123456789'')"

definition is_space :: "char \<Rightarrow> bool" where
  "is_space c = (c \<in> set [CHR 0x09, CHR 0x0A, CHR 0x0B, CHR 0x0C, CHR 0x0D,
       CHR 0x1C, CHR 0x1D, CHR 0x1E, CHR 0x1F, CHR 0x20, CHR 0x85, CHR 0xA0])"

definition is_word :: "char \<Rightarrow> bool" where
  "is_word c = (let n = (of_char c :: nat) in
      (48 \<le> n \<and> n \<le> 57) \<or> (65 \<le> n \<and> n \<le> 90) \<or> n = 95 \<or> (97 \<le> n \<and> n \<le> 122)
      \<or> n \<in> set [0xAA, 0xB2, 0xB3, 0xB5, 0xB9, 0xBA, 0xBC, 0xBD, 0xBE]
      \<or> (0xC0 \<le> n \<and> n \<le> 0xD6) \<or> (0xD8 \<le> n \<and> n \<le> 0xF6) \<or> 0xF8 \<le> n)"

fun class_matches :: "cclass \<Rightarrow> char \<Rightarrow> bool" where
  "class_matches (Lit a) c = (c = a)"
| "class_matches Dot c = (c \<noteq> CHR 0x0A)"
| "class_matches Space c = is_space c"
| "class_matches NonDigit c = (\<not> is_digit c)"

text \<open>\<open>\b\<close>: exactly one of the characters before and after the position is a word character.\<close>

definition at_boundary :: "char option \<Rightarrow> string \<Rightarrow> bool" where
  "at_boundary prev s =
     ((case prev of None \<Rightarrow> False | Some p \<Rightarrow> is_word p)
        \<noteq> (case s of [] \<Rightarrow> False | c # _ \<Rightarrow> is_word c))"

text \<open>
  The backtracking matcher: \<open>prev\<close> is the character before the position, \<open>s\<close> the rest
  of the line, \<open>opens\<close> the rest of the line at each group's start, \<open>groups\<close> the groups
  closed so far. A greedy star first takes one more character and falls back to taking
  none when the rest of the pattern fails, so the first match found is the one Python's
  engine returns.
\<close>

fun rx_match :: "rx_item list \<Rightarrow> char option \<Rightarrow> string \<Rightarrow> (string \<times> string) list
    \<Rightarrow> (string \<times> string) list \<Rightarrow> (string \<times> string) list option" where
  "rx_match [] prev s opens groups = Some groups"
| "rx_match (One cl # r) prev [] opens groups = None"
| "rx_match (One cl # r) prev (c # s) opens groups =
     (if class_matches cl c then rx_match r (Some c) s opens groups else None)"
| "rx_match (Star cl # r) prev [] opens groups = rx_match r prev [] opens groups"
| "rx_match (Star cl # r) prev (c # s) opens groups =
     (if class_matches cl c
      then (case rx_match (Star cl # r) (Some c) s opens groups of
              Some g \<Rightarrow> Some g
            | None \<Rightarrow> rx_match r prev (c # s) opens groups)
      else rx_match r prev (c # s) opens groups)"
| "rx_match (WordBoundary # r) prev s opens groups =
     (if at_boundary prev s then rx_match r prev s opens groups else None)"
| "rx_match (GroupOpen n # r) prev s opens groups =
     rx_match r prev s (AList.update n s opens) groups"
| "rx_match (GroupClose n # r) prev s opens groups =
     (case map_of opens n of
        None \<Rightarrow> None
      | Some s0 \<Rightarrow> rx_match r prev s opens
          (AList.update n (take (length s0 - length s) s0) groups))"

text \<open>\<open>re.match(pattern, line)\<close>: anchored at the start of the line, \<open>None\<close> when no match.\<close>

definition re_match :: "rx_item list \<Rightarrow> string \<Rightarrow> (string \<times> string) list option" where
  "re_match pat line = rx_match pat None line [] []"

definition lits :: "string \<Rightarrow> rx_item list" where
  "lits s = map (\<lambda>c. One (Lit c)) s"

text \<open>\<open>'.*\\bsource\\s*=\\s*"(?P<LINK>.*)"'\<close>\<close>

definition source_pattern :: "rx_item list" where
  "source_pattern = [Star Dot, WordBoundary] @ lits ''source'' @ [Star Space, One (Lit CHR ''=''),
     Star Space, One (Lit CHR 0x22), GroupOpen ''LINK'', Star Dot, GroupClose ''LINK'',
     One (Lit CHR 0x22)]"

text \<open>\<open>'.*\\bversion\\s*=\\s*"[^\\d]*(?P<VERSION>.*)"'\<close>\<close>

definition version_pattern :: "rx_item list" where
  "version_pattern = [Star Dot, WordBoundary] @ lits ''version'' @ [Star Space, One (Lit CHR ''=''),
     Star Space, One (Lit CHR 0x22), Star NonDigit, GroupOpen ''VERSION'', Star Dot,
     GroupClose ''VERSION'', One (Lit CHR 0x22)]"

section \<open>The scanner \<open>find_modules\<close>\<close>

datatype log_level = INFO | WARNING

type_synonym log_entry = "log_level \<times> string"

text \<open>\<open>str(e)\<close> of an exception.\<close>

fun exc_str :: "py_error \<Rightarrow> string" where
  "exc_str IndexError = ''list index out of range''"
| "exc_str AttributeError = ''NoneType object has no attribute''"
| "exc_str (FileNotFoundError s) = s"
| "exc_str (UnicodeDecodeError s) = s"
| "exc_str (OtherError s) = s"

text \<open>
  The variables of \<open>find_modules\<close> and the log. A function of the scanner returns the
  state it reached together with the exception it raised there, if any.
\<close>

record scan_state =
  in_module :: bool
  curr_md :: "ModuleDownload option"
  modules_found :: "ModuleDownload list"
  log :: "log_entry list"

text \<open>The body of \<open>for line in f\<close>; \<open>file_path\<close> is \<open>os.path.join(root, file_name)\<close>.\<close>

definition scan_line :: "string \<Rightarrow> string \<Rightarrow> scan_state \<Rightarrow> scan_state \<times> py_error option" where
  "scan_line file_path line st =
     (if \<not> in_module st \<and> startswith line ''module''
      then (st\<lparr>in_module := True, curr_md := Some (new_ModuleDownload (dirname file_path))\<rparr>, None)
      else if in_module st
      then (if startswith line ''}''
            then (case curr_md st of
                    None \<Rightarrow> (st\<lparr>in_module := False\<rparr>, Some AttributeError)
                  | Some md \<Rightarrow>
                      (if module_link md = None
                       then (st\<lparr>in_module := False, curr_md := None,
                               log := log st @ [(WARNING, ''A module at '' @ source_dir md
                                                   @ '' had no source, skipping'')]\<rparr>, None)
                       else (st\<lparr>in_module := False, curr_md := None,
                               modules_found := modules_found st @ [md]\<rparr>, None)))
            else (case re_match source_pattern line of
                    Some g \<Rightarrow>
                      (case curr_md st of
                         None \<Rightarrow> (st, Some AttributeError)
                       | Some md \<Rightarrow> (st\<lparr>curr_md := Some (md\<lparr>module_link := map_of g ''LINK''\<rparr>)\<rparr>, None))
                  | None \<Rightarrow>
                      (case re_match version_pattern line of
                         Some g \<Rightarrow>
                           (case curr_md st of
                              None \<Rightarrow> (st, Some AttributeError)
                            | Some md \<Rightarrow> (st\<lparr>curr_md := Some (md\<lparr>version := map_of g ''VERSION''\<rparr>)\<rparr>, None))
                       | None \<Rightarrow> (st, None))))
      else (st, None))"

fun scan_lines :: "string \<Rightarrow> string list \<Rightarrow> scan_state \<Rightarrow> scan_state \<times> py_error option" where
  "scan_lines file_path [] st = (st, None)"
| "scan_lines file_path (l # ls) st =
     (case scan_line file_path l st of
        (st', None) \<Rightarrow> scan_lines file_path ls st'
      | (st', Some e) \<Rightarrow> (st', Some e))"

text \<open>
  An opened file: the lines its iterator yields, and the exception the iterator raises
  after them, if any (a \<open>UnicodeDecodeError\<close> of the decoder, for instance).
\<close>

datatype file_data = FileData (file_lines: "string list") (read_error: "py_error option")

text \<open>The clause \<open>except (UnicodeDecodeError, FileNotFoundError)\<close>.\<close>

fun caught :: "py_error \<Rightarrow> bool" where
  "caught (UnicodeDecodeError s) = True"
| "caught (FileNotFoundError s) = True"
| "caught e = False"

text \<open>The \<open>try\<close> statement run on an opened file; \<open>full_path\<close> is \<open>os.path.join(path, root, file_name)\<close>.\<close>

definition scan_file :: "string \<Rightarrow> string \<Rightarrow> file_data \<Rightarrow> scan_state \<Rightarrow> scan_state \<times> py_error option" where
  "scan_file full_path file_path f st =
     (let (st', r) = scan_lines file_path (file_lines f) (st\<lparr>in_module := False, curr_md := None\<rparr>);
          raised = (case r of Some e \<Rightarrow> Some e | None \<Rightarrow> read_error f)
      in case raised of
           None \<Rightarrow> (st', None)
         | Some e \<Rightarrow>
             (if caught e
              then (st'\<lparr>log := log st' @ [(WARNING, ''Skipping '' @ full_path @ '' because of ''
                                              @ exc_str e)]\<rparr>, None)
              else (st', Some e)))"

text \<open>
  The file system as the scanner sees it: what \<open>os.walk(path)\<close> yields, and what
  \<open>open\<close> does on a path (it raises, or it returns a file).
\<close>

type_synonym walk = "(string \<times> string list \<times> string list) list"

type_synonym file_system = "string \<Rightarrow> py_error + file_data"

text \<open>The body of \<open>for file_name in full_file_names\<close>. The call of \<open>open\<close> is outside the \<open>try\<close>.\<close>

definition visit_file :: "file_system \<Rightarrow> string \<Rightarrow> string \<Rightarrow> string \<Rightarrow> scan_state
    \<Rightarrow> scan_state \<times> py_error option" where
  "visit_file fs path root file_name st =
     (if \<not> endswith file_name ''.tf'' then (st, None)
      else (case fs (path_join path [root, file_name]) of
              Inl e \<Rightarrow> (st, Some e)
            | Inr f \<Rightarrow> scan_file (path_join path [root, file_name]) (path_join root [file_name]) f st))"

fun visit_files :: "file_system \<Rightarrow> string \<Rightarrow> string \<Rightarrow> string list \<Rightarrow> scan_state
    \<Rightarrow> scan_state \<times> py_error option" where
  "visit_files fs path root [] st = (st, None)"
| "visit_files fs path root (n # ns) st =
     (case visit_file fs path root n st of
        (st', None) \<Rightarrow> visit_files fs path root ns st'
      | (st', Some e) \<Rightarrow> (st', Some e))"

fun visit_dirs :: "file_system \<Rightarrow> string \<Rightarrow> walk \<Rightarrow> scan_state \<Rightarrow> scan_state \<times> py_error option" where
  "visit_dirs fs path [] st = (st, None)"
| "visit_dirs fs path ((root, dir_names, full_file_names) # w) st =
     (case visit_files fs path root full_file_names st of
        (st', None) \<Rightarrow> visit_dirs fs path w st'
      | (st', Some e) \<Rightarrow> (st', Some e))"

definition initial_scan_state :: scan_state where
  "initial_scan_state = \<lparr>in_module = False, curr_md = None, modules_found = [], log = []\<rparr>"

text \<open>\<open>find_modules\<close>: the log written, and the list returned or the exception raised.\<close>

definition find_modules :: "file_system \<Rightarrow> walk \<Rightarrow> string
    \<Rightarrow> log_entry list \<times> (py_error + ModuleDownload list)" where
  "find_modules fs w path =
     (case visit_dirs fs path w initial_scan_state of
        (st, None) \<Rightarrow> (log st, Inr (modules_found st))
      | (st, Some e) \<Rightarrow> (log st, Inl e))"

section \<open>The fetch executor of \<open>load_tf_modules\<close>\<close>

text \<open>\<open>should_download\<close>, the default predicate; on \<open>None\<close> the call of \<open>startswith\<close> raises.\<close>

fun should_download :: "string option \<Rightarrow> py_error + bool" where
  "should_download None = Inl AttributeError"
| "should_download (Some path) =
     Inr (\<not> (startswith path ''./'' \<or> startswith path ''../'' \<or> startswith path ''/''))"

text \<open>
  The loader is the collaborator \<open>module_loader_registry\<close>, a parameter of the model:
  its two configuration attributes, and what \<open>load\<close> together with \<open>content.loaded()\<close>
  does on a call: it raises an \<open>Exception\<close> (with the text \<open>str(e)\<close>), or returns
  \<open>None\<close>, or returns a content whose \<open>loaded()\<close> is the given truth value.
\<close>

record registry_config =
  download_external_modules :: bool
  root_dir :: string

datatype load_outcome = LoadRaises string | LoadNone | LoadContent bool

type_synonym load_call = "string \<times> string option \<times> string"

type_synonym loader = "registry_config \<Rightarrow> load_call \<Rightarrow> load_outcome"

text \<open>\<open>"latest" if not m.version else m.version\<close>: \<open>None\<close> and the empty string are falsy.\<close>

fun effective_version :: "string option \<Rightarrow> string" where
  "effective_version None = ''latest''"
| "effective_version (Some v) = (if v = [] then ''latest'' else v)"

text \<open>
  What one task leaves behind: the lines it logged, the calls of \<open>load\<close> it made, and the
  exception that left \<open>_download_module\<close>, which the pool stores in the task's future.
\<close>

record task_result =
  t_log :: "log_entry list"
  t_calls :: "load_call list"
  t_exc :: "py_error option"

definition download_module :: "(string option \<Rightarrow> py_error + bool) \<Rightarrow> (load_call \<Rightarrow> load_outcome)
    \<Rightarrow> ModuleDownload \<Rightarrow> task_result" where
  "download_module should_download_module load m =
     (case should_download_module (module_link m) of
        Inl e \<Rightarrow> \<lparr>t_log = [], t_calls = [], t_exc = Some e\<rparr>
      | Inr False \<Rightarrow> \<lparr>t_log = [], t_calls = [], t_exc = None\<rparr>
      | Inr True \<Rightarrow>
          (let call = (source_dir m, module_link m, effective_version (version m));
               info = (INFO, ''Downloading module '' @ address m)
           in case load call of
                LoadRaises e \<Rightarrow>
                  \<lparr>t_log = [info, (WARNING, ''Unable to load module ('' @ address m @ ''): '' @ e)],
                   t_calls = [call], t_exc = None\<rparr>
              | LoadNone \<Rightarrow>
                  \<lparr>t_log = [info, (WARNING, ''Failed to download module '' @ address m)],
                   t_calls = [call], t_exc = None\<rparr>
              | LoadContent loaded \<Rightarrow>
                  \<lparr>t_log = (if loaded then [info]
                            else [info, (WARNING, ''Failed to download module '' @ address m)]),
                   t_calls = [call], t_exc = None\<rparr>))"

text \<open>
  One batch: a task per value of the batch is submitted and \<open>futures.wait\<close> returns when
  all are done; it does not look into the futures, so an exception stored there goes no
  further. The tasks are listed in the order of submission.
\<close>

definition run_batch :: "(string option \<Rightarrow> py_error + bool) \<Rightarrow> (load_call \<Rightarrow> load_outcome)
    \<Rightarrow> batch \<Rightarrow> task_result list" where
  "run_batch should_download_module load b =
     map (download_module should_download_module load) (dict_values b)"

definition run_batches :: "(string option \<Rightarrow> py_error + bool) \<Rightarrow> (load_call \<Rightarrow> load_outcome)
    \<Rightarrow> batch list \<Rightarrow> task_result list" where
  "run_batches should_download_module load batches =
     concat (map (run_batch should_download_module load) batches)"

text \<open>\<open>load_tf_modules\<close>: the registry as configured, the log, the calls of \<open>load\<close> made, and
  the exception that left the function, if any.\<close>

record run_result =
  r_registry :: registry_config
  r_log :: "log_entry list"
  r_calls :: "load_call list"
  r_exc :: "py_error option"

definition load_tf_modules :: "file_system \<Rightarrow> walk \<Rightarrow> loader \<Rightarrow> string
    \<Rightarrow> (string option \<Rightarrow> py_error + bool) \<Rightarrow> run_result" where
  "load_tf_modules fs w load path should_download_module =
     (let reg = \<lparr>download_external_modules = True, root_dir = path\<rparr>;
          (lg, found) = find_modules fs w path
      in case found of
           Inl e \<Rightarrow> \<lparr>r_registry = reg, r_log = lg, r_calls = [], r_exc = Some e\<rparr>
         | Inr modules_to_load \<Rightarrow>
             (case plan_batches (distinct_modules modules_to_load) of
                Inl e \<Rightarrow> \<lparr>r_registry = reg, r_log = lg, r_calls = [], r_exc = Some e\<rparr>
              | Inr batches \<Rightarrow>
                  (let tasks = run_batches should_download_module (load reg) batches
                   in \<lparr>r_registry = reg, r_log = lg @ concat (map t_log tasks),
                       r_calls = concat (map t_calls tasks), r_exc = None\<rparr>)))"

text \<open>Sample files: a quote, a line end, and blocks of the specification's scenarios.\<close>

definition dq :: string where
  "dq = [CHR 0x22]"

definition eol :: string where
  "eol = [CHR 0x0A]"

definition block_open :: string where
  "block_open = ''module '' @ dq @ ''m'' @ dq @ '' {'' @ eol"

definition source_line :: "string \<Rightarrow> string" where
  "source_line x = ''  source = '' @ dq @ x @ dq @ eol"

definition version_line :: "string \<Rightarrow> string" where
  "version_line v = ''  version = '' @ dq @ v @ dq @ eol"

definition block_close :: string where
  "block_close = ''}'' @ eol"

text \<open>A file system holding one file, at \<open>p\<close>; \<open>open\<close> fails on every other path.\<close>

definition one_file :: "string \<Rightarrow> file_data \<Rightarrow> file_system" where
  "one_file p f = (\<lambda>x. if x = p then Inr f else Inl (FileNotFoundError x))"

text \<open>
  Predicates on scanner states and on lines, for the statements below: every reference
  found so far has its link set; inside a block there is a current reference; a line
  on which the source pattern matches; a line on which the source pattern does not
  match and the version pattern does (such a line, inside a block, sets the version).
\<close>

definition links_set :: "scan_state \<Rightarrow> bool" where
  "links_set st = (\<forall>m \<in> set (modules_found st). module_link m \<noteq> None)"

definition cur_ok :: "scan_state \<Rightarrow> bool" where
  "cur_ok st = (in_module st \<longrightarrow> curr_md st \<noteq> None)"

definition declares_source :: "string \<Rightarrow> bool" where
  "declares_source l = (re_match source_pattern l \<noteq> None)"

definition declares_version :: "string \<Rightarrow> bool" where
  "declares_version l = (re_match source_pattern l = None \<and> re_match version_pattern l \<noteq> None)"

text \<open>Sample trees: one directory \<open>/r\<close> (or \<open>mods\<close>) that holds the file \<open>main.tf\<close>.\<close>

definition tree_r :: walk where
  "tree_r = [(''/r'', [], [''main.tf''])]"

definition tree_mods :: walk where
  "tree_mods = [(''mods'', [], [''main.tf''])]"

definition ref_x :: ModuleDownload where
  "ref_x = \<lparr>source_dir = ''/r'', module_link = Some ''x'', version = None\<rparr>"

definition pending_state :: scan_state where
  "pending_state = \<lparr>in_module = True, curr_md = Some (new_ModuleDownload ''/r''),
     modules_found = [], log = []\<rparr>"

text \<open>A loader that raises on every call for the version \<open>latest\<close> and loads the rest.\<close>

definition flaky_load :: "load_call \<Rightarrow> load_outcome" where
  "flaky_load c = (if snd (snd c) = ''latest'' then LoadRaises ''boom'' else LoadContent True)"

definition scenario_batches :: "batch list" where
  "scenario_batches =
     [[(module_link ref_a_latest_B, ref_a_latest_B), (module_link ref_local, ref_local)],
      [(module_link ref_a_v1, ref_a_v1)]]"

text \<open>
  Whether the scanner is inside a block after the given lines, started inside (\<open>True\<close>)
  or outside (\<open>False\<close>): the two assignments to \<open>in_module\<close> in the loop body.
\<close>

fun inside_after :: "bool \<Rightarrow> string list \<Rightarrow> bool" where
  "inside_after b [] = b"
| "inside_after b (l # ls) =
     inside_after (if \<not> b \<and> startswith l ''module'' then True
                   else if b \<and> startswith l ''}'' then False else b) ls"

text \<open>
  Two scanner states with the same references found and the same log, and two results
  of the scanner that agree on these and on the exception raised.
\<close>

definition same_output :: "scan_state \<Rightarrow> scan_state \<Rightarrow> bool" where
  "same_output st st' = (modules_found st = modules_found st' \<and> log st = log st')"

definition same_result :: "scan_state \<times> py_error option \<Rightarrow> scan_state \<times> py_error option \<Rightarrow> bool" where
  "same_result a b = (same_output (fst a) (fst b) \<and> snd a = snd b)"

text \<open>
  A directory with two files: \<open>a.tf\<close> holds one complete block; \<open>b.tf\<close> starts with a
  source line and a closing line outside any block and then holds one complete block.
\<close>

definition tree_ab :: walk where
  "tree_ab = [(''/r'', [], [''a.tf'', ''b.tf''])]"

definition files_ab :: file_system where
  "files_ab = (\<lambda>q.
     if q = ''/r/a.tf'' then Inr (FileData [block_open, source_line ''x'', block_close] None)
     else if q = ''/r/b.tf'' then Inr (FileData [source_line ''z'', block_close,
                                            block_open, source_line ''w'', block_close] None)
     else Inl (FileNotFoundError q))"

definition ref_w :: ModuleDownload where
  "ref_w = \<lparr>source_dir = ''/r'', module_link = Some ''w'', version = None\<rparr>"

text \<open>
  One file with three blocks: \<open>mod-a\<close> without a version, \<open>mod-a\<close> at \<open>v1.0.0\<close>, and a
  local path.
\<close>

definition scenario_lines :: "string list" where
  "scenario_lines =
     [block_open, source_line ''mod-a'', block_close,
      block_open, source_line ''mod-a'', version_line ''v1.0.0'', block_close,
      block_open, source_line ''./local'', block_close]"

definition scenario_fs :: file_system where
  "scenario_fs = one_file ''/r/main.tf'' (FileData scenario_lines None)"

section \<open>Properties of the batch planner\<close>

lemma update_absent: "\<not> dict_contains k d \<Longrightarrow> AList.update k v d = d @ [(k, v)]"
  by (induction d) (auto simp: dict_contains_def)

lemma scan_batches_bounds:
  "found = i - 1 \<Longrightarrow> i - 1 \<le> scan_batches k bs i found \<and> scan_batches k bs i found \<le> i - 1 + int (length bs)"
proof (induction bs arbitrary: i found)
  case Nil
  then show ?case by simp
next
  case (Cons b bs)
  show ?case
  proof (cases "dict_contains k b")
    case True
    have "i + 1 - 1 \<le> scan_batches k bs (i + 1) i \<and> scan_batches k bs (i + 1) i \<le> i + 1 - 1 + int (length bs)"
      by (rule Cons.IH) simp
    with True show ?thesis by simp
  next
    case False
    with Cons.prems show ?thesis by simp
  qed
qed

lemma scan_batches_free:
  "found = i - 1 \<Longrightarrow> scan_batches k bs i found < i - 1 + int (length bs) \<Longrightarrow>
     \<not> dict_contains k (bs ! nat (scan_batches k bs i found + 1 - i))"
proof (induction bs arbitrary: i found)
  case Nil
  then show ?case by simp
next
  case (Cons b bs)
  show ?case
  proof (cases "dict_contains k b")
    case True
    let ?r = "scan_batches k bs (i + 1) i"
    have lt: "?r < i + 1 - 1 + int (length bs)" using Cons.prems True by simp
    have ih: "\<not> dict_contains k (bs ! nat (?r + 1 - (i + 1)))"
      by (rule Cons.IH[OF _ lt]) simp
    have ge: "i \<le> ?r" using scan_batches_bounds[of i "i + 1" k bs] by simp
    then have "nat (?r + 1 - i) = Suc (nat (?r + 1 - (i + 1)))" by simp
    with ih True show ?thesis by simp
  next
    case False
    with Cons.prems show ?thesis by simp
  qed
qed

lemma place_cases:
  obtains (new) "place m bs = Inr (bs @ [[(module_link m, m)]])"
  | (old) j where "j < length bs" "\<not> dict_contains (module_link m) (bs ! j)"
      "place m bs = Inr (bs[j := bs ! j @ [(module_link m, m)]])"
proof -
  let ?k = "module_link m"
  let ?r = "scan_batches ?k bs 0 (- 1)"
  have b: "- 1 \<le> ?r \<and> ?r \<le> int (length bs) - 1"
    using scan_batches_bounds[of "- 1" 0 ?k bs] by simp
  show thesis
  proof (cases "?r = int (length bs) - 1")
    case True
    then have "place m bs = Inr (bs @ [[(?k, m)]])" by (simp add: place_def)
    then show thesis by (rule new)
  next
    case False
    with b have lt: "?r < int (length bs) - 1" by simp
    have fr: "\<not> dict_contains ?k (bs ! nat (?r + 1))"
      using scan_batches_free[of "- 1" 0 ?k bs] lt by simp
    have j: "nat (?r + 1) < length bs" using b lt by simp
    have "py_index bs (?r + 1) = Inr (nat (?r + 1))"
      using b lt by (simp add: py_index_def Let_def)
    with False have "place m bs = Inr (bs[nat (?r + 1) := bs ! nat (?r + 1) @ [(?k, m)]])"
      by (simp add: place_def Let_def update_absent[OF fr])
    with j fr show thesis by (rule old)
  qed
qed




lemma all_values_snoc_at:
  "j < length bs \<Longrightarrow> mset (all_values (bs[j := bs ! j @ [(k, m)]])) = add_mset m (mset (all_values bs))"
proof (induction bs arbitrary: j)
  case Nil
  then show ?case by simp
next
  case (Cons b bs)
  show ?case
  proof (cases j)
    case 0
    then show ?thesis by (simp add: all_values_def dict_values_def)
  next
    case (Suc n)
    with Cons.prems have "n < length bs" by simp
    from Cons.IH[OF this] Suc show ?thesis by (simp add: all_values_def)
  qed
qed

lemma place_mset:
  assumes "place m bs = Inr bs'"
  shows "mset (all_values bs') = add_mset m (mset (all_values bs))"
proof (rule place_cases[of m bs])
  assume "place m bs = Inr (bs @ [[(module_link m, m)]])"
  with assms show ?thesis by (auto simp: all_values_def dict_values_def)
next
  fix j
  assume old: "j < length bs" "\<not> dict_contains (module_link m) (bs ! j)"
      "place m bs = Inr (bs[j := bs ! j @ [(module_link m, m)]])"
  with assms all_values_snoc_at[OF old(1), of "module_link m" m] show ?thesis by simp
qed

lemma place_total: "\<exists>bs'. place m bs = Inr bs'"
  by (rule place_cases[of m bs]) auto

lemma plan_from_total: "\<exists>bs'. plan_from bs ms = Inr bs'"
proof (induction ms arbitrary: bs)
  case Nil
  show ?case by simp
next
  case (Cons m ms)
  obtain b1 where "place m bs = Inr b1" using place_total by blast
  with Cons.IH[of b1] show ?case by simp
qed


lemma plan_from_mset:
  "plan_from bs ms = Inr bs' \<Longrightarrow> mset (all_values bs') = mset (all_values bs) + mset ms"
proof (induction ms arbitrary: bs)
  case Nil
  then show ?case by simp
next
  case (Cons m ms)
  obtain b1 where b1: "place m bs = Inr b1" using place_total by blast
  have "plan_from b1 ms = Inr bs'" using Cons.prems b1 by simp
  from Cons.IH[OF this] place_mset[OF b1] show ?case by simp
qed

lemma set_update_subset: "set (AList.update k v d) \<subseteq> insert (k, v) (set d)"
  by (induction d) auto

lemma keyed_by_address_update:
  "keyed_by_address d \<Longrightarrow> keyed_by_address (AList.update (address m) m d)"
  using set_update_subset[of "address m" m d]
  by (auto simp: keyed_by_address_def distinct_update)

lemma keyed_by_address_foldl:
  "keyed_by_address d \<Longrightarrow> keyed_by_address (foldl (\<lambda>d m. AList.update (address m) m d) d ms)"
  by (induction ms arbitrary: d) (simp_all add: keyed_by_address_update)

lemma keyed_by_address_distinct: "keyed_by_address d \<Longrightarrow> distinct (dict_values d)"
proof -
  assume k: "keyed_by_address d"
  then have "map fst d = map address (map snd d)" by (auto simp: keyed_by_address_def)
  with k have "distinct (map address (map snd d))" by (simp add: keyed_by_address_def)
  then show ?thesis unfolding dict_values_def
    using distinct_map[of address "map snd d"] by blast
qed

lemma distinct_distinct_modules: "distinct (distinct_modules ms)"
  unfolding distinct_modules_def
  by (rule keyed_by_address_distinct, rule keyed_by_address_foldl) (simp add: keyed_by_address_def)



text \<open>
  Claim C2. For every scanner output \<open>ms\<close>, planning the deduplicated sequence
  \<open>distinct_modules ms\<close> succeeds, and the references of all batches together are, as a
  multiset, exactly the deduplicated input; no reference occurs twice among them. So
  every input reference lies in exactly one batch.
\<close>

theorem plan_batches_partition:
  "\<exists>bs. plan_batches (distinct_modules ms) = Inr bs
      \<and> mset (all_values bs) = mset (distinct_modules ms)
      \<and> distinct (all_values bs)"
proof -
  obtain bs where bs: "plan_from [] (distinct_modules ms) = Inr bs"
    using plan_from_total by blast
  have m: "mset (all_values bs) = mset (distinct_modules ms)"
    using plan_from_mset[OF bs] by (simp add: all_values_def)
  have "distinct (all_values bs)"
    using mset_eq_imp_distinct_iff[OF m] distinct_distinct_modules by blast
  with bs m show ?thesis by (simp add: plan_batches_def)
qed

theorem plan_batches_partition_witness:
  "plan_batches (distinct_modules [ref_a_latest, ref_a_v1, ref_a_latest_B, ref_local])
     = Inr [[(module_link ref_a_latest_B, ref_a_latest_B), (module_link ref_local, ref_local)],
            [(module_link ref_a_v1, ref_a_v1)]]
   \<and> mset (all_values [[(module_link ref_a_latest_B, ref_a_latest_B), (module_link ref_local, ref_local)],
            [(module_link ref_a_v1, ref_a_v1)]])
     = mset (distinct_modules [ref_a_latest, ref_a_v1, ref_a_latest_B, ref_local])
   \<and> distinct (all_values [[(module_link ref_a_latest_B, ref_a_latest_B), (module_link ref_local, ref_local)],
            [(module_link ref_a_v1, ref_a_v1)]])"
proof -
  have dm: "distinct_modules [ref_a_latest, ref_a_v1, ref_a_latest_B, ref_local]
      = [ref_a_latest_B, ref_a_v1, ref_local]"
    by (simp add: distinct_modules_def dict_values_def address_def
        ref_a_latest_def ref_a_v1_def ref_a_latest_B_def ref_local_def)
  have pl: "plan_batches [ref_a_latest_B, ref_a_v1, ref_local]
     = Inr [[(module_link ref_a_latest_B, ref_a_latest_B), (module_link ref_local, ref_local)],
            [(module_link ref_a_v1, ref_a_v1)]]"
    by (simp add: plan_batches_def place_def py_index_def dict_contains_def
        ref_a_v1_def ref_a_latest_B_def ref_local_def)
  from plan_batches_partition[of "[ref_a_latest, ref_a_v1, ref_a_latest_B, ref_local]"]
  show ?thesis unfolding dm pl by simp
qed

section \<open>Properties of the scanner\<close>

lemmas rx_defs = re_match_def source_pattern_def version_pattern_def lits_def
  at_boundary_def is_word_def is_space_def is_digit_def

lemmas sample_defs = dq_def eol_def block_open_def source_line_def version_line_def
  block_close_def one_file_def tree_r_def tree_mods_def

lemmas path_defs = path_join_def path_join2_def dirname_def startswith_def endswith_def

lemmas scan_defs = find_modules_def initial_scan_state_def visit_file_def scan_file_def
  scan_line_def new_ModuleDownload_def

lemma scan_line_links_set:
  "links_set st \<Longrightarrow> scan_line fp l st = (st', r) \<Longrightarrow> links_set st'"
  by (auto simp: scan_line_def links_set_def split: if_splits option.splits)

lemma scan_lines_links_set:
  "links_set st \<Longrightarrow> scan_lines fp ls st = (st', r) \<Longrightarrow> links_set st'"
proof (induction ls arbitrary: st)
  case Nil
  then show ?case by simp
next
  case (Cons l ls)
  obtain s1 r1 where s1: "scan_line fp l st = (s1, r1)" by (cases "scan_line fp l st")
  with Cons.prems(1) have l1: "links_set s1" by (rule scan_line_links_set)
  show ?case
  proof (cases r1)
    case None
    with s1 Cons.prems(2) have "scan_lines fp ls s1 = (st', r)" by simp
    with l1 show ?thesis by (rule Cons.IH)
  next
    case (Some e)
    with s1 Cons.prems(2) l1 show ?thesis by simp
  qed
qed

lemma scan_file_links_set:
  assumes "links_set st" "scan_file full fp f st = (st', r)"
  shows "links_set st'"
proof -
  let ?st0 = "st\<lparr>in_module := False, curr_md := None\<rparr>"
  obtain s1 r1 where s1: "scan_lines fp (file_lines f) ?st0 = (s1, r1)"
    by (cases "scan_lines fp (file_lines f) ?st0")
  have "links_set ?st0" using assms(1) by (simp add: links_set_def)
  then have "links_set s1" using s1 by (rule scan_lines_links_set)
  moreover have "modules_found st' = modules_found s1"
    using assms(2) s1 by (auto simp: scan_file_def split: option.splits if_splits)
  ultimately show ?thesis by (simp add: links_set_def)
qed

lemma visit_file_links_set:
  "links_set st \<Longrightarrow> visit_file fs path root n st = (st', r) \<Longrightarrow> links_set st'"
  by (auto simp: visit_file_def split: if_splits sum.splits intro: scan_file_links_set)

lemma visit_files_links_set:
  "links_set st \<Longrightarrow> visit_files fs path root ns st = (st', r) \<Longrightarrow> links_set st'"
proof (induction ns arbitrary: st)
  case Nil
  then show ?case by simp
next
  case (Cons n ns)
  obtain s1 r1 where s1: "visit_file fs path root n st = (s1, r1)"
    by (cases "visit_file fs path root n st")
  with Cons.prems(1) have l1: "links_set s1" by (rule visit_file_links_set)
  show ?case
  proof (cases r1)
    case None
    with s1 Cons.prems(2) have "visit_files fs path root ns s1 = (st', r)" by simp
    with l1 show ?thesis by (rule Cons.IH)
  next
    case (Some e)
    with s1 Cons.prems(2) l1 show ?thesis by simp
  qed
qed

lemma visit_dirs_links_set:
  "links_set st \<Longrightarrow> visit_dirs fs path w st = (st', r) \<Longrightarrow> links_set st'"
proof (induction w arbitrary: st)
  case Nil
  then show ?case by simp
next
  case (Cons d w)
  obtain root ds ns where d: "d = (root, ds, ns)" by (cases d)
  obtain s1 r1 where s1: "visit_files fs path root ns st = (s1, r1)"
    by (cases "visit_files fs path root ns st")
  with Cons.prems(1) have l1: "links_set s1" by (rule visit_files_links_set)
  show ?case
  proof (cases r1)
    case None
    with s1 d Cons.prems(2) have "visit_dirs fs path w s1 = (st', r)" by simp
    with l1 show ?thesis by (rule Cons.IH)
  next
    case (Some e)
    with s1 d Cons.prems(2) l1 show ?thesis by simp
  qed
qed

lemma find_modules_links_set_aux:
  assumes "snd (find_modules fs w path) = Inr ms" "m \<in> set ms"
  shows "module_link m \<noteq> None"
proof -
  obtain s1 r1 where s1: "visit_dirs fs path w initial_scan_state = (s1, r1)"
    by (cases "visit_dirs fs path w initial_scan_state")
  have "links_set initial_scan_state" by (simp add: links_set_def initial_scan_state_def)
  then have "links_set s1" using s1 by (rule visit_dirs_links_set)
  moreover have "ms = modules_found s1"
    using assms(1) s1 by (auto simp: find_modules_def split: option.splits)
  ultimately show ?thesis using assms(2) by (simp add: links_set_def)
qed

lemma scan_line_close_unset:
  "in_module st \<Longrightarrow> curr_md st = Some md \<Longrightarrow> module_link md = None \<Longrightarrow> startswith line ''}'' \<Longrightarrow>
    scan_line fp line st = (st\<lparr>in_module := False, curr_md := None,
       log := log st @ [(WARNING, ''A module at '' @ source_dir md @ '' had no source, skipping'')]\<rparr>, None)"
  by (simp add: scan_line_def)

lemma scan_line_cur_ok:
  "cur_ok st \<Longrightarrow> \<exists>st'. scan_line fp l st = (st', None) \<and> cur_ok st'"
  by (auto simp: scan_line_def cur_ok_def split: option.splits)

lemma scan_lines_cur_ok:
  "cur_ok st \<Longrightarrow> \<exists>st'. scan_lines fp ls st = (st', None) \<and> cur_ok st'"
proof (induction ls arbitrary: st)
  case Nil
  then show ?case by simp
next
  case (Cons l ls)
  obtain s1 where s1: "scan_line fp l st = (s1, None)" "cur_ok s1"
    using scan_line_cur_ok[OF Cons.prems] by blast
  from Cons.IH[OF s1(2)] s1(1) show ?case by simp
qed

lemma scan_lines_append:
  "scan_lines fp (xs @ ys) st =
     (case scan_lines fp xs st of
        (st', None) \<Rightarrow> scan_lines fp ys st'
      | (st', Some e) \<Rightarrow> (st', Some e))"
  by (induction xs arbitrary: st) (auto split: prod.splits option.splits)

lemma scan_file_clean:
  "scan_file full fp (FileData ls None) st =
     (fst (scan_lines fp ls (st\<lparr>in_module := False, curr_md := None\<rparr>)), None)"
proof -
  have "cur_ok (st\<lparr>in_module := False, curr_md := None\<rparr>)" by (simp add: cur_ok_def)
  from scan_lines_cur_ok[OF this, of fp ls] show ?thesis
    by (auto simp: scan_file_def)
qed

lemma scan_line_inside:
  "in_module st \<Longrightarrow> curr_md st \<noteq> None \<Longrightarrow> \<not> startswith l ''}'' \<Longrightarrow>
    \<exists>st'. scan_line fp l st = (st', None) \<and> in_module st' \<and> curr_md st' \<noteq> None
       \<and> modules_found st' = modules_found st \<and> log st' = log st"
  by (auto simp: scan_line_def split: option.splits)

lemma scan_lines_inside:
  "in_module st \<Longrightarrow> curr_md st \<noteq> None \<Longrightarrow> \<forall>l \<in> set ls. \<not> startswith l ''}'' \<Longrightarrow>
    \<exists>st'. scan_lines fp ls st = (st', None) \<and> in_module st' \<and> curr_md st' \<noteq> None
       \<and> modules_found st' = modules_found st \<and> log st' = log st"
proof (induction ls arbitrary: st)
  case Nil
  then show ?case by simp
next
  case (Cons l ls)
  from Cons.prems have "\<not> startswith l ''}''" by simp
  from scan_line_inside[OF Cons.prems(1,2) this, of fp]
  obtain s1 where s1: "scan_line fp l st = (s1, None)" "in_module s1" "curr_md s1 \<noteq> None"
      "modules_found s1 = modules_found st" "log s1 = log st" by blast
  from Cons.prems have "\<forall>l \<in> set ls. \<not> startswith l ''}''" by simp
  from Cons.IH[OF s1(2,3) this] s1 show ?case by simp
qed

text \<open>
  Claim C4, as amended. For every directory tree and file system on which the scan
  returns, every reference returned has its link set (it is not \<open>None\<close>; it may be the
  empty string). A block whose closing line is reached while the link is still unset is
  dropped: the warning is logged, the list of references found is unchanged.
\<close>

theorem find_modules_links_set:
  "(snd (find_modules fs w path) = Inr ms \<longrightarrow> (\<forall>m \<in> set ms. module_link m \<noteq> None))
   \<and> (in_module st \<and> curr_md st = Some md \<and> module_link md = None \<and> startswith line ''}'' \<longrightarrow>
        scan_line fp line st =
          (st\<lparr>in_module := False, curr_md := None,
              log := log st @ [(WARNING, ''A module at '' @ source_dir md
                                  @ '' had no source, skipping'')]\<rparr>, None))"
  using find_modules_links_set_aux[of fs w path ms] scan_line_close_unset[of st md line fp]
  by blast

theorem find_modules_links_set_witness:
  "find_modules (one_file ''/r/main.tf''
       (FileData [block_open, block_close, block_open, source_line ''x'', block_close] None))
     tree_r ''/r''
     = ([(WARNING, ''A module at /r had no source, skipping'')], Inr [ref_x])
   \<and> module_link ref_x \<noteq> None
   \<and> scan_line ''/r/main.tf'' block_close pending_state =
       (\<lparr>in_module = False, curr_md = None, modules_found = [],
         log = [(WARNING, ''A module at /r had no source, skipping'')]\<rparr>, None)"
proof -
  let ?fs = "one_file ''/r/main.tf''
       (FileData [block_open, block_close, block_open, source_line ''x'', block_close] None)"
  have ev: "find_modules ?fs tree_r ''/r''
     = ([(WARNING, ''A module at /r had no source, skipping'')], Inr [ref_x])"
    by (simp add: scan_defs path_defs sample_defs rx_defs ref_x_def)
  have h: "in_module pending_state \<and> curr_md pending_state = Some (new_ModuleDownload ''/r'')
      \<and> module_link (new_ModuleDownload ''/r'') = None \<and> startswith block_close ''}''"
    by (simp add: pending_state_def new_ModuleDownload_def block_close_def startswith_def)
  from find_modules_links_set[of ?fs tree_r "''/r''" "[ref_x]" pending_state
      "new_ModuleDownload ''/r''" block_close "''/r/main.tf''"] ev h
  show ?thesis by (simp add: pending_state_def new_ModuleDownload_def)
qed

text \<open>
  The claim as stated fails: a block with the line \<open>source = ""\<close> is returned, with the
  empty string as its link.
\<close>

theorem empty_link_emitted:
  "find_modules (one_file ''/r/main.tf'' (FileData [block_open, source_line '''', block_close] None))
     tree_r ''/r''
   = ([], Inr [\<lparr>source_dir = ''/r'', module_link = Some '''', version = None\<rparr>])"
  by (simp add: scan_defs path_defs sample_defs rx_defs)

text \<open>
  Claim C5. The call of \<open>open\<close> stands outside the \<open>try\<close> statement, so the clause
  \<open>except (UnicodeDecodeError, FileNotFoundError)\<close> does not cover it. For the relative
  root \<open>mods\<close>, whose walk lists \<open>mods/main.tf\<close>, the scanner opens
  \<open>os.path.join('mods', 'mods', 'main.tf')\<close>, which does not exist: the
  \<open>FileNotFoundError\<close> leaves \<open>find_modules\<close>, nothing is logged, and the scan fails.
\<close>

theorem open_failure_not_caught:
  "find_modules (one_file ''mods/main.tf'' (FileData [block_open, source_line ''x'', block_close] None))
     tree_mods ''mods''
   = ([], Inl (FileNotFoundError ''mods/mods/main.tf''))"
  by (simp add: scan_defs path_defs sample_defs rx_defs)

text \<open>
  In contrast, an exception of the two caught classes raised while the lines are read
  is logged, and the scan of the file returns normally with what was found before.
\<close>

lemma read_failure_caught:
  assumes "read_error f = Some e" "caught e"
  shows "\<exists>st'. scan_file full fp f st = (st', None)
           \<and> log st' = log (fst (scan_lines fp (file_lines f) (st\<lparr>in_module := False, curr_md := None\<rparr>)))
                 @ [(WARNING, ''Skipping '' @ full @ '' because of '' @ exc_str e)]"
proof -
  have "cur_ok (st\<lparr>in_module := False, curr_md := None\<rparr>)" by (simp add: cur_ok_def)
  from scan_lines_cur_ok[OF this, of fp "file_lines f"] assms show ?thesis
    by (auto simp: scan_file_def)
qed

text \<open>
  Claim C9. Scanning a file that consists of one module block with the lines
  \<open>source = "x"\<close> and \<open>version = "v1.2.3"\<close> returns exactly one reference; its link is
  \<open>x\<close> and its version is \<open>1.2.3\<close>, the leading \<open>v\<close> stripped. Nothing is logged.
\<close>

theorem scan_source_and_version:
  "find_modules (one_file ''/r/main.tf''
       (FileData [block_open, source_line ''x'', version_line ''v1.2.3'', block_close] None))
     tree_r ''/r''
   = ([], Inr [\<lparr>source_dir = ''/r'', module_link = Some ''x'', version = Some ''1.2.3''\<rparr>])"
  by (simp add: scan_defs path_defs sample_defs rx_defs)

lemma scan_line_inside_after:
  assumes "cur_ok st"
  shows "\<exists>st'. scan_line fp l st = (st', None) \<and> cur_ok st'
           \<and> in_module st' = inside_after (in_module st) [l]"
  using assms by (auto simp: scan_line_def cur_ok_def split: option.splits)

lemma scan_lines_inside_after:
  "cur_ok st \<Longrightarrow> \<exists>st'. scan_lines fp ls st = (st', None) \<and> cur_ok st'
           \<and> in_module st' = inside_after (in_module st) ls"
proof (induction ls arbitrary: st)
  case Nil
  then show ?case by simp
next
  case (Cons l ls)
  from scan_line_inside_after[OF Cons.prems, of fp l]
  obtain s1 where s1: "scan_line fp l st = (s1, None)" "cur_ok s1"
      "in_module s1 = inside_after (in_module st) [l]" by blast
  from Cons.IH[OF s1(2)] obtain s2 where s2: "scan_lines fp ls s1 = (s2, None)" "cur_ok s2"
      "in_module s2 = inside_after (in_module s1) ls" by blast
  have "scan_lines fp (l # ls) st = (s2, None)" using s1(1) s2(1) by simp
  moreover have "in_module s2 = inside_after (in_module st) (l # ls)"
    using s1(3) s2(3) by simp
  ultimately show ?case using s2(2) by blast
qed

lemma scan_file_unterminated:
  assumes "\<not> inside_after False pre"
    and "startswith opening ''module''"
    and "\<forall>l \<in> set rest. \<not> startswith l ''}''"
  shows "\<exists>s t. scan_file full fp (FileData (pre @ opening # rest) None) st = (s, None)
           \<and> scan_file full fp (FileData pre None) st = (t, None)
           \<and> same_output s t \<and> in_module s \<and> curr_md s \<noteq> None"
proof -
  let ?s = "st\<lparr>in_module := False, curr_md := None\<rparr>"
  have cl: "cur_ok ?s" by (simp add: cur_ok_def)
  from scan_lines_inside_after[OF cl, of fp pre] assms(1)
  obtain t where t: "scan_lines fp pre ?s = (t, None)" "\<not> in_module t" by auto
  let ?o = "t\<lparr>in_module := True, curr_md := Some (new_ModuleDownload (dirname fp))\<rparr>"
  have op: "scan_line fp opening t = (?o, None)"
    using t(2) assms(2) by (simp add: scan_line_def)
  obtain s where s: "scan_lines fp rest ?o = (s, None)" "in_module s" "curr_md s \<noteq> None"
      "modules_found s = modules_found ?o" "log s = log ?o"
    using scan_lines_inside[of ?o rest fp] assms(3) by auto
  have "scan_lines fp (pre @ opening # rest) ?s = (s, None)"
    using t(1) op s(1) by (simp add: scan_lines_append)
  then have "scan_file full fp (FileData (pre @ opening # rest) None) st = (s, None)"
    by (simp add: scan_file_clean)
  moreover have "scan_file full fp (FileData pre None) st = (t, None)"
    using t(1) by (simp add: scan_file_clean)
  moreover have "same_output s t" using s(4,5) by (simp add: same_output_def)
  ultimately show ?thesis using s(2,3) by blast
qed

lemma same_output_reset:
  "same_output st st' \<Longrightarrow>
     st\<lparr>in_module := False, curr_md := None\<rparr> = st'\<lparr>in_module := False, curr_md := None\<rparr>"
  by (cases st; cases st') (simp add: same_output_def)

lemma scan_file_same_output:
  "same_output st st' \<Longrightarrow> scan_file full fp f st = scan_file full fp f st'"
  by (simp add: scan_file_def same_output_reset[of st st'])

lemma visit_file_unterminated:
  assumes "fs p = Inr (FileData pre None)"
    and "fs' p = Inr (FileData (pre @ opening # rest) None)"
    and "\<forall>q. q \<noteq> p \<longrightarrow> fs' q = fs q"
    and "\<not> inside_after False pre"
    and "startswith opening ''module''"
    and "\<forall>l \<in> set rest. \<not> startswith l ''}''"
    and "same_output st st'"
  shows "same_result (visit_file fs' path root n st) (visit_file fs path root n st')"
proof (cases "endswith n ''.tf''")
  case False
  with assms(7) show ?thesis by (simp add: visit_file_def same_result_def)
next
  case True
  let ?q = "path_join path [root, n]"
  let ?fp = "path_join root [n]"
  show ?thesis
  proof (cases "?q = p")
    case q: True
    from scan_file_unterminated[OF assms(4,5,6), of ?q ?fp st]
    obtain s t where st: "scan_file ?q ?fp (FileData (pre @ opening # rest) None) st = (s, None)"
        "scan_file ?q ?fp (FileData pre None) st = (t, None)" "same_output s t" by blast
    have "scan_file ?q ?fp (FileData pre None) st' = (t, None)"
      using st(2) scan_file_same_output[OF assms(7)] by simp
    with st(1,3) q True assms(1,2) show ?thesis
      by (simp add: visit_file_def same_result_def)
  next
    case q: False
    with assms(3) have eq: "fs' ?q = fs ?q" by blast
    show ?thesis
    proof (cases "fs ?q")
      case (Inl e)
      with eq True assms(7) show ?thesis by (simp add: visit_file_def same_result_def)
    next
      case (Inr f)
      have "scan_file ?q ?fp f st = scan_file ?q ?fp f st'"
        using assms(7) by (rule scan_file_same_output)
      with Inr eq True show ?thesis
        by (simp add: visit_file_def same_result_def same_output_def)
    qed
  qed
qed

lemma visit_files_unterminated:
  assumes "fs p = Inr (FileData pre None)"
    and "fs' p = Inr (FileData (pre @ opening # rest) None)"
    and "\<forall>q. q \<noteq> p \<longrightarrow> fs' q = fs q"
    and "\<not> inside_after False pre"
    and "startswith opening ''module''"
    and "\<forall>l \<in> set rest. \<not> startswith l ''}''"
  shows "same_output st st' \<Longrightarrow>
     same_result (visit_files fs' path root ns st) (visit_files fs path root ns st')"
proof (induction ns arbitrary: st st')
  case Nil
  then show ?case by (simp add: same_result_def)
next
  case (Cons n ns)
  obtain a ea where a: "visit_file fs' path root n st = (a, ea)"
    by (cases "visit_file fs' path root n st")
  obtain b eb where b: "visit_file fs path root n st' = (b, eb)"
    by (cases "visit_file fs path root n st'")
  from visit_file_unterminated[where fs=fs and fs'=fs' and p=p and path=path and root=root and n=n,
      OF assms Cons.prems] a b
  have ab: "same_output a b" "eb = ea" by (simp_all add: same_result_def)
  show ?case
  proof (cases ea)
    case None
    with a b ab Cons.IH[OF ab(1)] show ?thesis by simp
  next
    case (Some e)
    with a b ab show ?thesis by (simp add: same_result_def)
  qed
qed

lemma visit_dirs_unterminated:
  assumes "fs p = Inr (FileData pre None)"
    and "fs' p = Inr (FileData (pre @ opening # rest) None)"
    and "\<forall>q. q \<noteq> p \<longrightarrow> fs' q = fs q"
    and "\<not> inside_after False pre"
    and "startswith opening ''module''"
    and "\<forall>l \<in> set rest. \<not> startswith l ''}''"
  shows "same_output st st' \<Longrightarrow>
     same_result (visit_dirs fs' path w st) (visit_dirs fs path w st')"
proof (induction w arbitrary: st st')
  case Nil
  then show ?case by (simp add: same_result_def)
next
  case (Cons d w)
  obtain root ds ns where d: "d = (root, ds, ns)" by (cases d)
  obtain a ea where a: "visit_files fs' path root ns st = (a, ea)"
    by (cases "visit_files fs' path root ns st")
  obtain b eb where b: "visit_files fs path root ns st' = (b, eb)"
    by (cases "visit_files fs path root ns st'")
  from visit_files_unterminated[where fs=fs and fs'=fs' and p=p and path=path and root=root and ns=ns,
      OF assms Cons.prems] a b
  have ab: "same_output a b" "eb = ea" by (simp_all add: same_result_def)
  show ?case
  proof (cases ea)
    case None
    with a b ab d Cons.IH[OF ab(1)] show ?thesis by simp
  next
    case (Some e)
    with a b ab d show ?thesis by (simp add: same_result_def)
  qed
qed

text \<open>
  Claim C10. Let a file hold the lines \<open>pre\<close>, which leave the scanner outside a block.
  Extend the file by a line that opens a block and by any lines none of which starts
  with the closing marker, so that the file ends inside the block. Then \<open>find_modules\<close>
  returns, for every tree, exactly the references and exactly the log it returns for
  the file without the extension: the pending reference is not in the output, of this
  file or through any later file, and no warning is logged for it. After the extended
  file the scanner is still inside the block with the reference pending, and has
  found and logged what it has after \<open>pre\<close>.
\<close>

theorem unterminated_block_discarded:
  assumes "fs p = Inr (FileData pre None)"
    and "\<not> inside_after False pre"
    and "startswith opening ''module''"
    and "\<forall>l \<in> set rest. \<not> startswith l ''}''"
  shows "find_modules (fs(p := Inr (FileData (pre @ opening # rest) None))) w path
           = find_modules fs w path
     \<and> (\<forall>st full fp. \<exists>st2. scan_file full fp (FileData (pre @ opening # rest) None) st = (st2, None)
            \<and> in_module st2 \<and> curr_md st2 \<noteq> None
            \<and> modules_found st2 = modules_found (fst (scan_file full fp (FileData pre None) st))
            \<and> log st2 = log (fst (scan_file full fp (FileData pre None) st)))"
proof
  let ?fs' = "fs(p := Inr (FileData (pre @ opening # rest) None))"
  obtain a ea where a: "visit_dirs ?fs' path w initial_scan_state = (a, ea)"
    by (cases "visit_dirs ?fs' path w initial_scan_state")
  obtain b eb where b: "visit_dirs fs path w initial_scan_state = (b, eb)"
    by (cases "visit_dirs fs path w initial_scan_state")
  have so: "same_output initial_scan_state initial_scan_state" by (simp add: same_output_def)
  have f1: "?fs' p = Inr (FileData (pre @ opening # rest) None)" by simp
  have f2: "\<forall>q. q \<noteq> p \<longrightarrow> ?fs' q = fs q" by simp
  from visit_dirs_unterminated[where fs=fs and fs'="?fs'" and p=p and path=path and w=w,
      OF assms(1) f1 f2 assms(2,3,4) so] a b
  have "same_output a b" "ea = eb" by (simp_all add: same_result_def)
  with a b show "find_modules ?fs' w path = find_modules fs w path"
    by (cases eb) (simp_all add: find_modules_def same_output_def)
next
  show "\<forall>st full fp. \<exists>st2. scan_file full fp (FileData (pre @ opening # rest) None) st = (st2, None)
            \<and> in_module st2 \<and> curr_md st2 \<noteq> None
            \<and> modules_found st2 = modules_found (fst (scan_file full fp (FileData pre None) st))
            \<and> log st2 = log (fst (scan_file full fp (FileData pre None) st))"
  proof (intro allI)
    fix st full fp
    from scan_file_unterminated[OF assms(2,3,4), of full fp st]
    show "\<exists>st2. scan_file full fp (FileData (pre @ opening # rest) None) st = (st2, None)
            \<and> in_module st2 \<and> curr_md st2 \<noteq> None
            \<and> modules_found st2 = modules_found (fst (scan_file full fp (FileData pre None) st))
            \<and> log st2 = log (fst (scan_file full fp (FileData pre None) st))"
      by (auto simp: same_output_def)
  qed
qed

theorem unterminated_block_discarded_witness:
  "files_ab ''/r/a.tf'' = Inr (FileData [block_open, source_line ''x'', block_close] None)
   \<and> \<not> inside_after False [block_open, source_line ''x'', block_close]
   \<and> startswith block_open ''module''
   \<and> \<not> startswith (source_line ''y'') ''}''
   \<and> find_modules (files_ab(''/r/a.tf'' := Inr (FileData
          ([block_open, source_line ''x'', block_close] @ block_open # [source_line ''y'']) None)))
        tree_ab ''/r''
      = ([], Inr [ref_x, ref_w])
   \<and> (\<exists>st2. scan_file ''/r/a.tf'' ''/r/a.tf'' (FileData
          ([block_open, source_line ''x'', block_close] @ block_open # [source_line ''y'']) None)
          initial_scan_state = (st2, None)
        \<and> in_module st2 \<and> curr_md st2 \<noteq> None \<and> modules_found st2 = [ref_x] \<and> log st2 = [])"
proof -
  have h1: "files_ab ''/r/a.tf'' = Inr (FileData [block_open, source_line ''x'', block_close] None)"
    by (simp add: files_ab_def)
  have h2: "\<not> inside_after False [block_open, source_line ''x'', block_close]"
    by (simp add: startswith_def sample_defs)
  have h3: "startswith block_open ''module''"
    by (simp add: startswith_def sample_defs)
  have h4: "\<forall>l \<in> set [source_line ''y'']. \<not> startswith l ''}''"
    by (simp add: startswith_def sample_defs)
  have ev: "find_modules files_ab tree_ab ''/r'' = ([], Inr [ref_x, ref_w])"
    by (simp add: files_ab_def tree_ab_def scan_defs path_defs sample_defs rx_defs
        ref_x_def ref_w_def)
  have sf: "scan_file ''/r/a.tf'' ''/r/a.tf'' (FileData [block_open, source_line ''x'', block_close] None)
      initial_scan_state
      = (\<lparr>in_module = False, curr_md = None, modules_found = [ref_x], log = []\<rparr>, None)"
    by (simp add: scan_defs path_defs sample_defs rx_defs ref_x_def)
  note t = unterminated_block_discarded[where fs=files_ab and p="''/r/a.tf''" and w=tree_ab
      and path="''/r''", OF h1 h2 h3 h4]
  from t have "find_modules (files_ab(''/r/a.tf'' := Inr (FileData
          ([block_open, source_line ''x'', block_close] @ block_open # [source_line ''y'']) None)))
        tree_ab ''/r'' = ([], Inr [ref_x, ref_w])"
    using ev by simp
  moreover from t sf have "\<exists>st2. scan_file ''/r/a.tf'' ''/r/a.tf'' (FileData
          ([block_open, source_line ''x'', block_close] @ block_open # [source_line ''y'']) None)
          initial_scan_state = (st2, None)
        \<and> in_module st2 \<and> curr_md st2 \<noteq> None \<and> modules_found st2 = [ref_x] \<and> log st2 = []"
    by (metis fst_conv scan_state.select_convs(3,4))
  ultimately show ?thesis using h1 h2 h3 h4 by simp
qed

lemma rx_match_keeps:
  "rx_match items prev s opens groups = Some g \<Longrightarrow> n \<in> fst ` set groups \<Longrightarrow> n \<in> fst ` set g"
proof (induction items prev s opens groups rule: rx_match.induct)
  case (8 n' r prev s opens groups)
  then show ?case
    by (auto split: option.splits simp: dom_update)
qed (auto split: if_splits option.splits)

lemma rx_match_group:
  "rx_match items prev s opens groups = Some g \<Longrightarrow> GroupClose n \<in> set items \<Longrightarrow> n \<in> fst ` set g"
proof (induction items prev s opens groups rule: rx_match.induct)
  case (8 n' r prev s opens groups)
  show ?case
  proof (cases "n' = n")
    case True
    with 8 show ?thesis
      by (auto split: option.splits dest!: rx_match_keeps[where n=n] simp: dom_update)
  next
    case False
    with 8 show ?thesis by (auto split: option.splits)
  qed
qed (auto split: if_splits option.splits)

lemma source_match_link:
  "re_match source_pattern l = Some g \<Longrightarrow> \<exists>x. map_of g ''LINK'' = Some x"
proof -
  assume "re_match source_pattern l = Some g"
  then have "''LINK'' \<in> fst ` set g"
    unfolding re_match_def by (rule rx_match_group) (simp add: source_pattern_def)
  then show ?thesis using map_of_eq_None_iff[of g "''LINK''"] by auto
qed

lemma scan_line_body:
  assumes "in_module st" "curr_md st = Some md" "\<not> startswith l ''}''" "\<not> declares_version l"
  shows "\<exists>md'. scan_line fp l st = (st\<lparr>curr_md := Some md'\<rparr>, None)
           \<and> version md' = version md \<and> source_dir md' = source_dir md
           \<and> (module_link md \<noteq> None \<or> declares_source l \<longrightarrow> module_link md' \<noteq> None)"
proof (cases "re_match source_pattern l")
  case None
  with assms(4) have "re_match version_pattern l = None" by (simp add: declares_version_def)
  with None assms(1,3) have "scan_line fp l st = (st, None)"
    by (simp add: scan_line_def)
  moreover have "st\<lparr>curr_md := Some md\<rparr> = st" using assms(2) by simp
  ultimately have "scan_line fp l st = (st\<lparr>curr_md := Some md\<rparr>, None)" by simp
  moreover have "\<not> declares_source l" using None by (simp add: declares_source_def)
  ultimately show ?thesis by blast
next
  case (Some g)
  then obtain x where x: "map_of g ''LINK'' = Some x" using source_match_link by blast
  with Some assms(1,2,3)
  have "scan_line fp l st = (st\<lparr>curr_md := Some (md\<lparr>module_link := Some x\<rparr>)\<rparr>, None)"
    by (simp add: scan_line_def)
  then show ?thesis by auto
qed

lemma scan_lines_body:
  assumes "in_module st" "curr_md st = Some md"
    "\<forall>l \<in> set body. \<not> startswith l ''}'' \<and> \<not> declares_version l"
  shows "\<exists>md'. scan_lines fp body st = (st\<lparr>curr_md := Some md'\<rparr>, None)
           \<and> version md' = version md \<and> source_dir md' = source_dir md
           \<and> (module_link md \<noteq> None \<or> (\<exists>l \<in> set body. declares_source l) \<longrightarrow> module_link md' \<noteq> None)"
  using assms
proof (induction body arbitrary: st md)
  case Nil
  have "st\<lparr>curr_md := Some md\<rparr> = st" using Nil.prems(2) by simp
  then have "scan_lines fp [] st = (st\<lparr>curr_md := Some md\<rparr>, None)" by simp
  then show ?case by (intro exI[of _ md]) simp
next
  case (Cons l ls)
  from Cons.prems(3) have l: "\<not> startswith l ''}''" "\<not> declares_version l" by simp_all
  from scan_line_body[OF Cons.prems(1,2) l, of fp]
  obtain m1 where m1: "scan_line fp l st = (st\<lparr>curr_md := Some m1\<rparr>, None)"
      "version m1 = version md" "source_dir m1 = source_dir md"
      "module_link md \<noteq> None \<or> declares_source l \<longrightarrow> module_link m1 \<noteq> None" by blast
  let ?s1 = "st\<lparr>curr_md := Some m1\<rparr>"
  have a: "in_module ?s1" "curr_md ?s1 = Some m1" using Cons.prems(1) by simp_all
  from Cons.prems(3) have b: "\<forall>l \<in> set ls. \<not> startswith l ''}'' \<and> \<not> declares_version l" by simp
  from Cons.IH[OF a b]
  obtain m2 where m2: "scan_lines fp ls ?s1 = (?s1\<lparr>curr_md := Some m2\<rparr>, None)"
      "version m2 = version m1" "source_dir m2 = source_dir m1"
      "module_link m1 \<noteq> None \<or> (\<exists>l \<in> set ls. declares_source l) \<longrightarrow> module_link m2 \<noteq> None" by blast
  have "scan_lines fp (l # ls) st = (st\<lparr>curr_md := Some m2\<rparr>, None)"
    using m1(1) m2(1) by simp
  moreover have "version m2 = version md" "source_dir m2 = source_dir md"
    using m1 m2 by simp_all
  moreover have "module_link md \<noteq> None \<or> (\<exists>l \<in> set (l # ls). declares_source l) \<longrightarrow> module_link m2 \<noteq> None"
    using m1(4) m2(4) by auto
  ultimately show ?case by blast
qed

lemma download_module_latest:
  "version m = None \<Longrightarrow> should_download_module (module_link m) = Inr True \<Longrightarrow>
     t_calls (download_module should_download_module load m) = [(source_dir m, module_link m, ''latest'')]"
  by (simp add: download_module_def Let_def split: load_outcome.splits)

text \<open>
  Claim C8. Take a block scanned from outside any block: an opening line, body lines
  none of which closes the block or sets a version, at least one of which declares a
  source, and a closing line. The scan adds exactly one reference; its version is unset,
  and when the predicate admits its link, the one call of \<open>load\<close> made for it passes the
  version \<open>latest\<close>.
\<close>

theorem block_without_version_loads_latest:
  assumes "\<not> in_module st"
    and "startswith opening ''module''"
    and "\<forall>l \<in> set body. \<not> startswith l ''}'' \<and> \<not> declares_version l"
    and "\<exists>l \<in> set body. declares_source l"
    and "startswith closing ''}''"
  shows "\<exists>st' m. scan_lines fp (opening # body @ [closing]) st = (st', None)
           \<and> modules_found st' = modules_found st @ [m]
           \<and> module_link m \<noteq> None \<and> version m = None
           \<and> (should_download_module (module_link m) = Inr True \<longrightarrow>
                t_calls (download_module should_download_module load m)
                  = [(source_dir m, module_link m, ''latest'')])"
proof -
  let ?o = "st\<lparr>in_module := True, curr_md := Some (new_ModuleDownload (dirname fp))\<rparr>"
  have op: "scan_line fp opening st = (?o, None)"
    using assms(1,2) by (simp add: scan_line_def)
  have a: "in_module ?o" "curr_md ?o = Some (new_ModuleDownload (dirname fp))" by simp_all
  from scan_lines_body[OF a assms(3), of fp] assms(4)
  obtain m where m: "scan_lines fp body ?o = (?o\<lparr>curr_md := Some m\<rparr>, None)"
      "version m = None" "module_link m \<noteq> None"
    by (auto simp: new_ModuleDownload_def)
  let ?b = "?o\<lparr>curr_md := Some m\<rparr>"
  let ?c = "?b\<lparr>in_module := False, curr_md := None, modules_found := modules_found ?b @ [m]\<rparr>"
  obtain y where y: "module_link m = Some y" using m(3) by blast
  have cl: "scan_line fp closing ?b = (?c, None)"
    using assms(5) y by (simp add: scan_line_def)
  have "scan_lines fp (opening # body @ [closing]) st = (?c, None)"
    using op m(1) cl by (simp add: scan_lines_append)
  moreover have "modules_found ?c = modules_found st @ [m]" by simp
  moreover have "should_download_module (module_link m) = Inr True \<longrightarrow>
      t_calls (download_module should_download_module load m) = [(source_dir m, module_link m, ''latest'')]"
    using download_module_latest[OF m(2)] by blast
  ultimately show ?thesis using m(2,3) by blast
qed

theorem block_without_version_loads_latest_witness:
  "\<not> in_module initial_scan_state \<and> startswith block_open ''module''
   \<and> \<not> startswith (source_line ''x'') ''}'' \<and> \<not> declares_version (source_line ''x'')
   \<and> declares_source (source_line ''x'') \<and> startswith block_close ''}''
   \<and> modules_found (fst (scan_lines ''/r/main.tf'' (block_open # [source_line ''x''] @ [block_close])
          initial_scan_state)) = [ref_x]
   \<and> should_download (module_link ref_x) = Inr True
   \<and> t_calls (download_module should_download (\<lambda>c. LoadContent True) ref_x)
       = [(''/r'', Some ''x'', ''latest'')]"
proof -
  have h1: "\<not> in_module initial_scan_state" by (simp add: initial_scan_state_def)
  have h2: "startswith block_open ''module''" by (simp add: startswith_def sample_defs)
  have sm: "re_match source_pattern (source_line ''x'') = Some [(''LINK'', ''x'')]"
    by (simp add: sample_defs rx_defs)
  have h3: "\<forall>l \<in> set [source_line ''x'']. \<not> startswith l ''}'' \<and> \<not> declares_version l"
    using sm by (simp add: declares_version_def) (simp add: startswith_def sample_defs)
  have h4: "\<exists>l \<in> set [source_line ''x'']. declares_source l"
    using sm by (simp add: declares_source_def)
  have h5: "startswith block_close ''}''" by (simp add: startswith_def sample_defs)
  have ev: "scan_lines ''/r/main.tf'' (block_open # [source_line ''x''] @ [block_close]) initial_scan_state
      = (\<lparr>in_module = False, curr_md = None, modules_found = [ref_x], log = []\<rparr>, None)"
    by (simp add: scan_defs path_defs sample_defs rx_defs ref_x_def)
  have sd: "should_download (module_link ref_x) = Inr True"
    by (simp add: ref_x_def startswith_def)
  from block_without_version_loads_latest[OF h1 h2 h3 h4 h5,
      of "''/r/main.tf''" should_download "\<lambda>c. LoadContent True"]
  obtain st' m where m: "scan_lines ''/r/main.tf'' (block_open # [source_line ''x''] @ [block_close])
        initial_scan_state = (st', None)"
      "modules_found st' = modules_found initial_scan_state @ [m]"
      "should_download (module_link m) = Inr True \<longrightarrow>
         t_calls (download_module should_download (\<lambda>c. LoadContent True) m)
           = [(source_dir m, module_link m, ''latest'')]"
    by blast
  from m(1,2) ev have "m = ref_x" by (simp add: initial_scan_state_def)
  with m(3) sd have "t_calls (download_module should_download (\<lambda>c. LoadContent True) ref_x)
       = [(''/r'', Some ''x'', ''latest'')]"
    by (simp add: ref_x_def)
  with h1 h2 h3 h4 h5 ev sd show ?thesis by simp
qed

section \<open>Properties of the address and of the executor\<close>

lemma split_last_colon:
  assumes "CHR '':'' \<notin> set b" "CHR '':'' \<notin> set d" "a @ CHR '':'' # b = c @ CHR '':'' # d"
  shows "a = c \<and> b = d"
proof -
  have "rev b @ CHR '':'' # rev a = rev d @ CHR '':'' # rev c"
    using arg_cong[OF assms(3), of rev] by simp
  moreover have "takeWhile (\<lambda>x. x \<noteq> CHR '':'') (rev b @ CHR '':'' # rev a) = rev b"
    using assms(1) by (auto simp: takeWhile_tail)
  moreover have "takeWhile (\<lambda>x. x \<noteq> CHR '':'') (rev d @ CHR '':'' # rev c) = rev d"
    using assms(2) by (auto simp: takeWhile_tail)
  ultimately have "rev b = rev d" by simp
  then have "b = d" by simp
  with assms(3) show ?thesis by simp
qed

text \<open>
  Claim C7, as amended. The address is the link, a colon, and the version, an unset
  version rendered as the text \<open>None\<close> (not as \<open>latest\<close>). For two references with
  their links set, whose rendered versions contain no colon and whose versions are not
  the text \<open>None\<close>, the addresses are equal if and only if the links are equal and the
  version fields are equal; an unset version and a set one are different fields, also
  when both are fetched as \<open>latest\<close>.
\<close>

theorem address_injective_amended:
  assumes "module_link m1 \<noteq> None" and "module_link m2 \<noteq> None"
    and "CHR '':'' \<notin> set (py_str (version m1))" and "CHR '':'' \<notin> set (py_str (version m2))"
    and "version m1 \<noteq> Some ''None''" and "version m2 \<noteq> Some ''None''"
  shows "address m1 = py_str (module_link m1) @ '':'' @ py_str (version m1)
     \<and> (address m1 = address m2 \<longleftrightarrow> module_link m1 = module_link m2 \<and> version m1 = version m2)"
proof -
  have inj: "py_str (version m1) = py_str (version m2) \<Longrightarrow> version m1 = version m2"
    using assms(5,6) by (cases "version m1"; cases "version m2") auto
  have injl: "py_str (module_link m1) = py_str (module_link m2) \<Longrightarrow> module_link m1 = module_link m2"
    using assms(1,2) by (cases "module_link m1"; cases "module_link m2") auto
  have "address m1 = address m2 \<Longrightarrow> module_link m1 = module_link m2 \<and> version m1 = version m2"
  proof -
    assume "address m1 = address m2"
    then have "py_str (module_link m1) @ CHR '':'' # py_str (version m1)
        = py_str (module_link m2) @ CHR '':'' # py_str (version m2)"
      by (simp add: address_def)
    from split_last_colon[OF assms(3,4) this] inj injl show ?thesis by blast
  qed
  moreover have "module_link m1 = module_link m2 \<and> version m1 = version m2 \<Longrightarrow> address m1 = address m2"
    by (simp add: address_def)
  ultimately show ?thesis by (auto simp: address_def)
qed

theorem address_injective_amended_witness:
  "module_link ref_a_latest \<noteq> None \<and> module_link ref_a_v1 \<noteq> None
   \<and> CHR '':'' \<notin> set (py_str (version ref_a_latest)) \<and> CHR '':'' \<notin> set (py_str (version ref_a_v1))
   \<and> version ref_a_latest \<noteq> Some ''None'' \<and> version ref_a_v1 \<noteq> Some ''None''
   \<and> address ref_a_latest = ''git::https://example.com/mod-a:None''
   \<and> address ref_a_latest \<noteq> address ref_a_v1"
proof -
  have h: "module_link ref_a_latest \<noteq> None" "module_link ref_a_v1 \<noteq> None"
    "CHR '':'' \<notin> set (py_str (version ref_a_latest))" "CHR '':'' \<notin> set (py_str (version ref_a_v1))"
    "version ref_a_latest \<noteq> Some ''None''" "version ref_a_v1 \<noteq> Some ''None''"
    by (simp_all add: ref_a_latest_def ref_a_v1_def)
  have a: "address ref_a_latest = ''git::https://example.com/mod-a:None''"
    by (simp add: address_def ref_a_latest_def)
  have "version ref_a_latest \<noteq> version ref_a_v1"
    by (simp add: ref_a_latest_def ref_a_v1_def)
  with address_injective_amended[OF h] have "address ref_a_latest \<noteq> address ref_a_v1"
    by blast
  with h a show ?thesis by blast
qed

text \<open>
  The claim as stated fails in both directions. A reference with no version and one
  with the empty version are the same fetch (both \<open>latest\<close>) and have different
  addresses; the link \<open>a:1\<close> with no version and the link \<open>a\<close> with the version
  \<open>1:None\<close> are different fetches and have the same address.
\<close>

theorem address_counterexample:
  "\<not> (address \<lparr>source_dir = ''d'', module_link = Some ''x'', version = None\<rparr>
        = address \<lparr>source_dir = ''d'', module_link = Some ''x'', version = Some ''''\<rparr>
      \<longleftrightarrow> (Some ''x'', effective_version None) = (Some ''x'', effective_version (Some '''')))
   \<and> \<not> (address \<lparr>source_dir = ''d'', module_link = Some ''a:1'', version = None\<rparr>
        = address \<lparr>source_dir = ''d'', module_link = Some ''a'', version = Some ''1:None''\<rparr>
      \<longleftrightarrow> (Some ''a:1'', effective_version None) = (Some ''a'', effective_version (Some ''1:None'')))"
  by (simp add: address_def)

lemma download_module_calls:
  "t_calls (download_module sdm load m) =
     (if sdm (module_link m) = Inr True
      then [(source_dir m, module_link m, effective_version (version m))] else [])"
  by (auto simp: download_module_def Let_def split: sum.splits bool.splits load_outcome.splits)

lemma run_batches_calls:
  "concat (map t_calls (run_batches sdm load batches)) =
     map (\<lambda>m. (source_dir m, module_link m, effective_version (version m)))
       (filter (\<lambda>m. sdm (module_link m) = Inr True) (all_values batches))"
proof -
  have one: "\<And>xs. concat (map t_calls (map (download_module sdm load) xs)) =
     map (\<lambda>m. (source_dir m, module_link m, effective_version (version m)))
       (filter (\<lambda>m. sdm (module_link m) = Inr True) xs)"
  proof -
    fix xs show "concat (map t_calls (map (download_module sdm load) xs)) =
     map (\<lambda>m. (source_dir m, module_link m, effective_version (version m)))
       (filter (\<lambda>m. sdm (module_link m) = Inr True) xs)"
      by (induction xs) (simp_all add: download_module_calls)
  qed
  have "run_batches sdm load batches = map (download_module sdm load) (all_values batches)"
    by (induction batches) (simp_all add: run_batches_def run_batch_def all_values_def)
  with one show ?thesis by simp
qed

lemma download_module_raises:
  assumes "sdm (module_link m) = Inr True"
    and "load (source_dir m, module_link m, effective_version (version m)) = LoadRaises e"
  shows "t_exc (download_module sdm load m) = None
     \<and> t_log (download_module sdm load m) =
         [(INFO, ''Downloading module '' @ address m),
          (WARNING, ''Unable to load module ('' @ address m @ ''): '' @ e)]"
  using assms by (simp add: download_module_def Let_def)

lemma load_tf_modules_run:
  assumes "find_modules fs w path = (lg, Inr ms)"
    and "plan_batches (distinct_modules ms) = Inr bs"
  shows "load_tf_modules fs w ld path sdm =
     \<lparr>r_registry = \<lparr>download_external_modules = True, root_dir = path\<rparr>,
      r_log = lg @ concat (map t_log
        (run_batches sdm (ld \<lparr>download_external_modules = True, root_dir = path\<rparr>) bs)),
      r_calls = concat (map t_calls
        (run_batches sdm (ld \<lparr>download_external_modules = True, root_dir = path\<rparr>) bs)),
      r_exc = None\<rparr>"
  using assms by (simp add: load_tf_modules_def Let_def)

lemma run_batches_tasks:
  "run_batches sdm load bs = map (download_module sdm load) (all_values bs)"
  by (induction bs) (simp_all add: run_batches_def run_batch_def all_values_def)

lemma load_tf_modules_effects:
  assumes "snd (find_modules fs w path) = Inr ms"
  shows "r_exc (load_tf_modules fs w ld path sdm) = None
     \<and> (\<exists>bs. plan_batches (distinct_modules ms) = Inr bs
           \<and> r_calls (load_tf_modules fs w ld path sdm) =
               map (\<lambda>m. (source_dir m, module_link m, effective_version (version m)))
                 (filter (\<lambda>m. sdm (module_link m) = Inr True) (all_values bs)))
     \<and> mset (r_calls (load_tf_modules fs w ld path sdm)) =
         image_mset (\<lambda>m. (source_dir m, module_link m, effective_version (version m)))
           (filter_mset (\<lambda>m. sdm (module_link m) = Inr True) (mset (distinct_modules ms)))
     \<and> (\<forall>m \<in> set (distinct_modules ms).
           sdm (module_link m) = Inr True
           \<and> ld \<lparr>download_external_modules = True, root_dir = path\<rparr>
                (source_dir m, module_link m, effective_version (version m)) = LoadRaises e \<longrightarrow>
           (WARNING, ''Unable to load module ('' @ address m @ ''): '' @ e)
              \<in> set (r_log (load_tf_modules fs w ld path sdm)))"
proof -
  let ?reg = "\<lparr>download_external_modules = True, root_dir = path\<rparr>"
  let ?run = "load_tf_modules fs w ld path sdm"
  let ?call = "\<lambda>m. (source_dir m, module_link m, effective_version (version m))"
  let ?adm = "\<lambda>m. sdm (module_link m) = Inr True"
  obtain lg where f: "find_modules fs w path = (lg, Inr ms)"
    using assms by (cases "find_modules fs w path") simp
  obtain bs where pf: "plan_from [] (distinct_modules ms) = Inr bs"
    using plan_from_total by blast
  then have pb: "plan_batches (distinct_modules ms) = Inr bs" by (simp add: plan_batches_def)
  have ms: "mset (all_values bs) = mset (distinct_modules ms)"
    using plan_from_mset[OF pf] by (simp add: all_values_def)
  note run = load_tf_modules_run[OF f pb, of ld sdm]
  have exc: "r_exc ?run = None" by (simp add: run)
  have calls: "r_calls ?run = map ?call (filter ?adm (all_values bs))"
    by (simp add: run run_batches_calls)
  have "mset (r_calls ?run) = image_mset ?call (filter_mset ?adm (mset (all_values bs)))"
    by (simp add: calls)
  then have mcalls: "mset (r_calls ?run) = image_mset ?call (filter_mset ?adm (mset (distinct_modules ms)))"
    by (simp add: ms)
  have warn: "\<forall>m \<in> set (distinct_modules ms).
      ?adm m \<and> ld ?reg (?call m) = LoadRaises e \<longrightarrow>
      (WARNING, ''Unable to load module ('' @ address m @ ''): '' @ e) \<in> set (r_log ?run)"
  proof (intro ballI impI)
    fix m assume m: "m \<in> set (distinct_modules ms)"
      and h: "?adm m \<and> ld ?reg (?call m) = LoadRaises e"
    from m have "m \<in> set (all_values bs)" using mset_eq_setD[OF ms] by simp
    moreover have "(WARNING, ''Unable to load module ('' @ address m @ ''): '' @ e)
        \<in> set (t_log (download_module sdm (ld ?reg) m))"
      using download_module_raises[of sdm m "ld ?reg" e] h by simp
    ultimately show "(WARNING, ''Unable to load module ('' @ address m @ ''): '' @ e) \<in> set (r_log ?run)"
      by (auto simp: run run_batches_tasks)
  qed
  from exc pb calls mcalls warn show ?thesis by blast
qed

lemma scenario_scan:
  "find_modules scenario_fs tree_r ''/r'' =
     ([], Inr [\<lparr>source_dir = ''/r'', module_link = Some ''mod-a'', version = None\<rparr>,
               \<lparr>source_dir = ''/r'', module_link = Some ''mod-a'', version = Some ''1.0.0''\<rparr>,
               \<lparr>source_dir = ''/r'', module_link = Some ''./local'', version = None\<rparr>])"
  by (simp add: scenario_fs_def scenario_lines_def scan_defs path_defs sample_defs rx_defs)

lemma scenario_run:
  "load_tf_modules scenario_fs tree_r (\<lambda>reg. flaky_load) ''/r'' should_download =
     \<lparr>r_registry = \<lparr>download_external_modules = True, root_dir = ''/r''\<rparr>,
      r_log = [(INFO, ''Downloading module mod-a:None''),
               (WARNING, ''Unable to load module (mod-a:None): boom''),
               (INFO, ''Downloading module mod-a:1.0.0'')],
      r_calls = [(''/r'', Some ''mod-a'', ''latest''), (''/r'', Some ''mod-a'', ''1.0.0'')],
      r_exc = None\<rparr>"
  by (simp add: load_tf_modules_def scenario_scan distinct_modules_def dict_values_def address_def
      plan_batches_def place_def py_index_def dict_contains_def run_batches_def run_batch_def
      download_module_def flaky_load_def startswith_def)

text \<open>
  Claim C6. When the predicate admits a reference and \<open>load\<close> raises for it, no exception
  leaves the task, and the task logs the download and then the warning that carries
  the reference's address and the exception's text. Whatever \<open>load\<close> does on any call,
  the calls of \<open>load\<close> made over given batches are exactly those for the admitted
  references of all batches, in order. And for every run of \<open>load_tf_modules\<close> whose
  scan has returned, whatever the loader does: the run returns without an exception;
  the calls of \<open>load\<close> it makes are those for the admitted references of the planned
  batches, in order, which are, as a multiset, the calls for the admitted references
  of the deduplicated scanner output, one call each; and for each such reference on
  which the loader raises, the warning with its address is in the log of the run.
\<close>

theorem loader_failure_isolated:
  "(should_download_module (module_link m) = Inr True
      \<and> load (source_dir m, module_link m, effective_version (version m)) = LoadRaises e \<longrightarrow>
        t_exc (download_module should_download_module load m) = None
        \<and> t_log (download_module should_download_module load m) =
            [(INFO, ''Downloading module '' @ address m),
             (WARNING, ''Unable to load module ('' @ address m @ ''): '' @ e)])
   \<and> concat (map t_calls (run_batches should_download_module load batches)) =
       map (\<lambda>m. (source_dir m, module_link m, effective_version (version m)))
         (filter (\<lambda>m. should_download_module (module_link m) = Inr True) (all_values batches))
   \<and> (snd (find_modules fs w path) = Inr ms \<longrightarrow>
        r_exc (load_tf_modules fs w ld path should_download_module) = None
        \<and> (\<exists>bs. plan_batches (distinct_modules ms) = Inr bs
              \<and> r_calls (load_tf_modules fs w ld path should_download_module) =
                  map (\<lambda>m. (source_dir m, module_link m, effective_version (version m)))
                    (filter (\<lambda>m. should_download_module (module_link m) = Inr True) (all_values bs)))
        \<and> mset (r_calls (load_tf_modules fs w ld path should_download_module)) =
            image_mset (\<lambda>m. (source_dir m, module_link m, effective_version (version m)))
              (filter_mset (\<lambda>m. should_download_module (module_link m) = Inr True)
                 (mset (distinct_modules ms)))
        \<and> (\<forall>r \<in> set (distinct_modules ms).
              should_download_module (module_link r) = Inr True
              \<and> ld \<lparr>download_external_modules = True, root_dir = path\<rparr>
                   (source_dir r, module_link r, effective_version (version r)) = LoadRaises x \<longrightarrow>
              (WARNING, ''Unable to load module ('' @ address r @ ''): '' @ x)
                 \<in> set (r_log (load_tf_modules fs w ld path should_download_module))))"
  using download_module_raises[of should_download_module m load e]
    run_batches_calls[of should_download_module load batches]
    load_tf_modules_effects[of fs w path ms ld should_download_module x]
  by blast

theorem loader_failure_isolated_witness:
  "should_download (module_link ref_a_latest_B) = Inr True
   \<and> flaky_load (source_dir ref_a_latest_B, module_link ref_a_latest_B,
        effective_version (version ref_a_latest_B)) = LoadRaises ''boom''
   \<and> t_exc (download_module should_download flaky_load ref_a_latest_B) = None
   \<and> t_log (download_module should_download flaky_load ref_a_latest_B) =
       [(INFO, ''Downloading module git::https://example.com/mod-a:None''),
        (WARNING, ''Unable to load module (git::https://example.com/mod-a:None): boom'')]
   \<and> concat (map t_calls (run_batches should_download flaky_load scenario_batches)) =
       [(''B'', Some ''git::https://example.com/mod-a'', ''latest''),
        (''B'', Some ''git::https://example.com/mod-a'', ''1.0.0'')]
   \<and> snd (find_modules scenario_fs tree_r ''/r'') =
       Inr [\<lparr>source_dir = ''/r'', module_link = Some ''mod-a'', version = None\<rparr>,
            \<lparr>source_dir = ''/r'', module_link = Some ''mod-a'', version = Some ''1.0.0''\<rparr>,
            \<lparr>source_dir = ''/r'', module_link = Some ''./local'', version = None\<rparr>]
   \<and> flaky_load (''/r'', Some ''mod-a'', ''latest'') = LoadRaises ''boom''
   \<and> r_exc (load_tf_modules scenario_fs tree_r (\<lambda>reg. flaky_load) ''/r'' should_download) = None
   \<and> r_calls (load_tf_modules scenario_fs tree_r (\<lambda>reg. flaky_load) ''/r'' should_download) =
       [(''/r'', Some ''mod-a'', ''latest''), (''/r'', Some ''mod-a'', ''1.0.0'')]
   \<and> (WARNING, ''Unable to load module (mod-a:None): boom'')
       \<in> set (r_log (load_tf_modules scenario_fs tree_r (\<lambda>reg. flaky_load) ''/r'' should_download))"
proof -
  have h1: "should_download (module_link ref_a_latest_B) = Inr True"
    by (simp add: ref_a_latest_B_def startswith_def)
  have h2: "flaky_load (source_dir ref_a_latest_B, module_link ref_a_latest_B,
        effective_version (version ref_a_latest_B)) = LoadRaises ''boom''"
    by (simp add: ref_a_latest_B_def flaky_load_def)
  have h3: "snd (find_modules scenario_fs tree_r ''/r'') =
       Inr [\<lparr>source_dir = ''/r'', module_link = Some ''mod-a'', version = None\<rparr>,
            \<lparr>source_dir = ''/r'', module_link = Some ''mod-a'', version = Some ''1.0.0''\<rparr>,
            \<lparr>source_dir = ''/r'', module_link = Some ''./local'', version = None\<rparr>]"
    by (simp add: scenario_scan)
  have h4: "flaky_load (''/r'', Some ''mod-a'', ''latest'') = LoadRaises ''boom''"
    by (simp add: flaky_load_def)
  have av: "filter (\<lambda>m. should_download (module_link m) = Inr True) (all_values scenario_batches)
      = [ref_a_latest_B, ref_a_v1]"
    by (simp add: scenario_batches_def all_values_def dict_values_def startswith_def
        ref_a_latest_B_def ref_a_v1_def ref_local_def)
  note t = loader_failure_isolated[of should_download ref_a_latest_B flaky_load "''boom''"
      scenario_batches scenario_fs tree_r "''/r''"
      "[\<lparr>source_dir = ''/r'', module_link = Some ''mod-a'', version = None\<rparr>,
        \<lparr>source_dir = ''/r'', module_link = Some ''mod-a'', version = Some ''1.0.0''\<rparr>,
        \<lparr>source_dir = ''/r'', module_link = Some ''./local'', version = None\<rparr>]"
      "\<lambda>reg. flaky_load" "''boom''"]
  from t h1 h2 have a: "t_exc (download_module should_download flaky_load ref_a_latest_B) = None
      \<and> t_log (download_module should_download flaky_load ref_a_latest_B) =
       [(INFO, ''Downloading module git::https://example.com/mod-a:None''),
        (WARNING, ''Unable to load module (git::https://example.com/mod-a:None): boom'')]"
    by (simp add: address_def ref_a_latest_B_def)
  from t have b: "concat (map t_calls (run_batches should_download flaky_load scenario_batches)) =
       [(''B'', Some ''git::https://example.com/mod-a'', ''latest''),
        (''B'', Some ''git::https://example.com/mod-a'', ''1.0.0'')]"
    unfolding av by (simp add: ref_a_latest_B_def ref_a_v1_def)
  from t h3 have c: "r_exc (load_tf_modules scenario_fs tree_r (\<lambda>reg. flaky_load) ''/r'' should_download) = None"
    by blast
  have d: "r_calls (load_tf_modules scenario_fs tree_r (\<lambda>reg. flaky_load) ''/r'' should_download) =
       [(''/r'', Some ''mod-a'', ''latest''), (''/r'', Some ''mod-a'', ''1.0.0'')]"
    by (simp add: scenario_run)
  have e: "(WARNING, ''Unable to load module (mod-a:None): boom'')
       \<in> set (r_log (load_tf_modules scenario_fs tree_r (\<lambda>reg. flaky_load) ''/r'' should_download))"
    by (simp add: scenario_run)
  from h1 h2 h3 h4 a b c d e show ?thesis by blast
qed

end
